theory Spec2Isabelle
  imports Complex_Main
begin

section \<open>Data model\<close>

text \<open>
  The repository's driver \<^verbatim>\<open>simulation.py\<close> runs a three-state automaton on a weighted
  network. A node is quiescent, excited or refractory; the activation matrix has one row
  per recorded step and one column per node. Python floats are modelled as rationals
  (exact arithmetic, no rounding, no non-finite values); Python integers as \<open>int\<close>.
\<close>

datatype node_state = Quiescent | Excited | Refractory

type_synonym snapshot = "node_state list"

type_synonym matrix = "int list list"

type_synonym connectome = "rat list list"

text \<open>
  The keyword arguments with which \<^verbatim>\<open>simulation\<close> constructs \<^verbatim>\<open>SERModel\<close>
  (lines 52--58 of \<^verbatim>\<open>simulation.py\<close>).
\<close>

record SERModel =
  n_steps :: int
  n_transient :: int
  prob_spont_act :: rat
  prob_recovery :: rat
  prop_e :: rat
  threshold :: rat

section \<open>The pseudo-random generator\<close>

text \<open>
  \<^verbatim>\<open>numpy.random\<close> is a library and is taken as a parameter: a generator is a seeding
  function, which rejects some seeds (NumPy raises on a seed outside \<open>0 .. 2^32 - 1\<close>), and a
  function that yields the next raw number together with the advanced state. The process-wide
  generator state is passed explicitly and returned updated.
\<close>

record 'g generator =
  seed_state :: "int \<Rightarrow> 'g option"
  next_raw :: "'g \<Rightarrow> nat \<times> 'g"

text \<open>A uniform draw from \<open>[0, 1)\<close> with 53 bits of resolution.\<close>

definition uniform :: "'g generator \<Rightarrow> 'g \<Rightarrow> rat \<times> 'g" where
  "uniform G g = (case next_raw G g of (r, g') \<Rightarrow> (of_nat (r mod 2 ^ 53) / 2 ^ 53, g'))"

text \<open>A concrete generator (a 64-bit linear congruential one) on which the model can be run.\<close>

definition lcg :: "nat generator" where
  "lcg = \<lparr> seed_state = (\<lambda>s. if 0 \<le> s \<and> s < 2 ^ 32 then Some (nat s) else None),
           next_raw = (\<lambda>x. let y = (6364136223846793005 * x + 1442695040888963407) mod 2 ^ 64
                            in (y div 2 ^ 11, y)) \<rparr>"

section \<open>The driver \<^verbatim>\<open>simulation\<close>\<close>

text \<open>
  Line 62, \<^verbatim>\<open>activation_matrix[activation_matrix == -1] = 2\<close>: every cell equal to \<open>-1\<close>
  is overwritten with \<open>2\<close>, every other cell is kept.
\<close>

definition remap_refractory :: "matrix \<Rightarrow> matrix" where
  "remap_refractory activation_matrix =
     map (map (\<lambda>v. if v = - 1 then 2 else v)) activation_matrix"

text \<open>
  What a call of \<^verbatim>\<open>simulation\<close> can raise: the seeding of line 49 rejects the seed, or
  \<^verbatim>\<open>SERModel.simulate\<close> raises; \<^verbatim>\<open>simulation\<close> catches nothing.
\<close>

datatype 'e failure = SeedRejected | EngineRaised 'e

text \<open>
  \<^verbatim>\<open>simulation\<close>, lines 38--63. The class \<^verbatim>\<open>SERModel\<close> is imported from the module
  \<^verbatim>\<open>model\<close>, whose source is not part of the sources at hand, so its method
  \<^verbatim>\<open>simulate\<close> is the parameter \<open>simulate\<close>: from the model's arguments, the
  connectome and the generator state it either raises or returns a matrix, and it leaves
  the generator advanced. The last argument is the state of the process-wide generator
  before the call.
\<close>

definition simulation ::
  "'g generator \<Rightarrow> (SERModel \<Rightarrow> connectome \<Rightarrow> 'g \<Rightarrow> ('e + matrix) \<times> 'g) \<Rightarrow>
   int \<Rightarrow> int \<Rightarrow> rat \<Rightarrow> rat \<Rightarrow> rat \<Rightarrow> rat \<Rightarrow> connectome \<Rightarrow> int \<Rightarrow> 'g \<Rightarrow>
   ('e failure + matrix) \<times> 'g" where
  "simulation G simulate steps n_therm ri rf prop_active T conn_matrix seed g0 =
     (case seed_state G seed of
        None \<Rightarrow> (Inl SeedRejected, g0)
      | Some g1 \<Rightarrow>
          (let model = \<lparr> n_steps = steps, n_transient = n_therm, prob_spont_act = ri,
                         prob_recovery = rf, prop_e = prop_active, threshold = T \<rparr>
           in case simulate model conn_matrix g1 of
                (Inl e, g2) \<Rightarrow> (Inl (EngineRaised e), g2)
              | (Inr activation_matrix, g2) \<Rightarrow> (Inr (remap_refractory activation_matrix), g2)))"

section \<open>The engine \<^verbatim>\<open>SERModel\<close>\<close>

text \<open>
  The module \<^verbatim>\<open>model\<close> that defines \<^verbatim>\<open>SERModel\<close> is not among the sources, so the
  engine below follows the specification's description of the network state store, the
  transition engine and the step loop. Inside the engine a refractory cell is stored as \<open>-1\<close>
  (the value line 62 of \<^verbatim>\<open>simulation.py\<close> looks for), a quiescent one as \<open>0\<close> and an excited
  one as \<open>1\<close>; the driver's output uses \<open>2\<close> for refractory.
\<close>

text \<open>Modelled from the spec: the engine's internal cell values (\<^verbatim>\<open>SERModel\<close> is missing).\<close>

fun engine_code :: "node_state \<Rightarrow> int" where
  "engine_code Quiescent = 0"
| "engine_code Excited = 1"
| "engine_code Refractory = - 1"

text \<open>The externally visible cell values: Quiescent 0, Excited 1, Refractory 2.\<close>

fun output_code :: "node_state \<Rightarrow> int" where
  "output_code Quiescent = 0"
| "output_code Excited = 1"
| "output_code Refractory = 2"

datatype error = ConfigurationError

text \<open>
  Modelled from the spec: the failure policy of the missing \<^verbatim>\<open>SERModel\<close> (a configuration
  error if \<open>n_transient \<ge> n_steps\<close>, if the connectome is not square, or if a probability
  parameter is outside \<open>[0, 1]\<close>).
\<close>

definition probability :: "rat \<Rightarrow> bool" where
  "probability p = (0 \<le> p \<and> p \<le> 1)"

definition square :: "connectome \<Rightarrow> bool" where
  "square adj_mat = list_all (\<lambda>row. length row = length adj_mat) adj_mat"

definition valid_config :: "SERModel \<Rightarrow> connectome \<Rightarrow> bool" where
  "valid_config P adj_mat =
     (n_transient P < n_steps P \<and> square adj_mat \<and> probability (prob_spont_act P) \<and>
      probability (prob_recovery P) \<and> probability (prop_e P))"

text \<open>
  Modelled from the spec: \<^verbatim>\<open>round\<close> of the missing \<^verbatim>\<open>initialize\<close>, read as the rounding of
  the repository's language (a tie goes to the even neighbour).
\<close>

definition round_half_even :: "rat \<Rightarrow> int" where
  "round_half_even x =
     (let f = \<lfloor>x\<rfloor>; d = x - of_int f
      in if d < 1 / 2 then f else if 1 / 2 < d then f + 1 else if even f then f else f + 1)"

text \<open>
  Modelled from the spec: the selection without replacement of the missing
  \<^verbatim>\<open>initialize\<close>. Each of the \<open>k\<close> rounds draws a position in the pool of nodes not yet
  chosen (the raw number reduced modulo the pool's size) and removes the node found there.
\<close>

definition below :: "'g generator \<Rightarrow> nat \<Rightarrow> 'g \<Rightarrow> nat \<times> 'g" where
  "below G n g = (case next_raw G g of (r, g') \<Rightarrow> (r mod n, g'))"

fun choose_nodes :: "'g generator \<Rightarrow> nat \<Rightarrow> nat list \<Rightarrow> 'g \<Rightarrow> nat list \<times> 'g" where
  "choose_nodes G 0 pool g = ([], g)"
| "choose_nodes G (Suc k) pool g =
     (if pool = [] then ([], g)
      else case below G (length pool) g of
        (i, g') \<Rightarrow>
          (case choose_nodes G k (take i pool @ drop (Suc i) pool) g' of
             (rest, g'') \<Rightarrow> (pool ! i # rest, g'')))"

text \<open>
  Modelled from the spec: \<^verbatim>\<open>initialize(n_nodes, prop_active, rng)\<close> of the missing network
  state store: \<open>round(prop_active * n_nodes)\<close> nodes start excited, all others quiescent.
\<close>

definition initialize :: "'g generator \<Rightarrow> nat \<Rightarrow> rat \<Rightarrow> 'g \<Rightarrow> snapshot \<times> 'g" where
  "initialize G n_nodes prop_active g =
     (case choose_nodes G (nat (round_half_even (prop_active * of_nat n_nodes))) [0..<n_nodes] g of
        (chosen, g') \<Rightarrow>
          (map (\<lambda>n. if n \<in> set chosen then Excited else Quiescent) [0..<n_nodes], g'))"

text \<open>
  Modelled from the spec: the network input of the missing transition engine, the sum of
  the weights of the edges into node \<open>n\<close> from the nodes excited in the snapshot. Row \<open>n\<close> of
  the connectome holds the weights of the edges into node \<open>n\<close> (in the specification's chain
  scenario the entry in row 1, column 0 carries activity from node 0 to node 1).
\<close>

definition input_sum :: "connectome \<Rightarrow> snapshot \<Rightarrow> nat \<Rightarrow> rat" where
  "input_sum adj_mat s n =
     sum_list (map (\<lambda>(w, st). if st = Excited then w else 0) (zip (adj_mat ! n) s))"

text \<open>
  Modelled from the spec: the per-node rule of the missing transition engine. An excited
  node becomes refractory and draws nothing; a refractory node recovers when its draw is
  below \<open>rf\<close>; a quiescent node draws, and becomes excited when the draw is below \<open>ri\<close> or the
  network input exceeds the threshold. Both conditions are computed before they are combined.
\<close>

definition update_node ::
  "'g generator \<Rightarrow> SERModel \<Rightarrow> connectome \<Rightarrow> snapshot \<Rightarrow> nat \<Rightarrow> 'g \<Rightarrow> node_state \<times> 'g" where
  "update_node G P adj_mat s n g =
     (case s ! n of
        Excited \<Rightarrow> (Refractory, g)
      | Refractory \<Rightarrow>
          (case uniform G g of
             (u, g') \<Rightarrow> (if u < prob_recovery P then Quiescent else Refractory, g'))
      | Quiescent \<Rightarrow>
          (case uniform G g of
             (u, g') \<Rightarrow>
               (let spontaneous = (u < prob_spont_act P);
                    driven = (threshold P < input_sum adj_mat s n)
                in (if spontaneous \<or> driven then Excited else Quiescent, g'))))"

text \<open>
  Modelled from the spec: one step of the missing transition engine. The nodes are visited
  in the given order, the generator is threaded through them, and every node reads the old
  snapshot \<open>s\<close> only (synchronous update).
\<close>

fun update_nodes ::
  "'g generator \<Rightarrow> SERModel \<Rightarrow> connectome \<Rightarrow> snapshot \<Rightarrow> nat list \<Rightarrow> 'g \<Rightarrow> snapshot \<times> 'g" where
  "update_nodes G P adj_mat s [] g = ([], g)"
| "update_nodes G P adj_mat s (n # ns) g =
     (case update_node G P adj_mat s n g of
        (st, g') \<Rightarrow>
          (case update_nodes G P adj_mat s ns g' of
             (rest, g'') \<Rightarrow> (st # rest, g'')))"

definition step :: "'g generator \<Rightarrow> SERModel \<Rightarrow> connectome \<Rightarrow> snapshot \<Rightarrow> 'g \<Rightarrow> snapshot \<times> 'g" where
  "step G P adj_mat s g = update_nodes G P adj_mat s [0..<length s] g"

text \<open>
  Modelled from the spec: the step loop of the missing driver \<^verbatim>\<open>run\<close>. Iteration \<open>t\<close> holds
  the snapshot of step \<open>t\<close>, appends it to the result when \<open>t \<ge> n_transient\<close>, and calls the
  transition engine for the next snapshot; \<open>k\<close> iterations remain.
\<close>

fun run_steps ::
  "'g generator \<Rightarrow> SERModel \<Rightarrow> connectome \<Rightarrow> nat \<Rightarrow> nat \<Rightarrow> snapshot \<Rightarrow> 'g \<Rightarrow> snapshot list \<times> 'g" where
  "run_steps G P adj_mat 0 t s g = ([], g)"
| "run_steps G P adj_mat (Suc k) t s g =
     (case step G P adj_mat s g of
        (s', g') \<Rightarrow>
          (case run_steps G P adj_mat k (Suc t) s' g' of
             (rows, g'') \<Rightarrow> (if n_transient P \<le> int t then s # rows else rows, g'')))"

text \<open>
  The snapshots of \<open>k\<close> successive steps from the snapshot \<open>s\<close>, the discarded ones included:
  what the loop visits.
\<close>

fun trajectory ::
  "'g generator \<Rightarrow> SERModel \<Rightarrow> connectome \<Rightarrow> nat \<Rightarrow> snapshot \<Rightarrow> 'g \<Rightarrow> snapshot list" where
  "trajectory G P adj_mat 0 s g = []"
| "trajectory G P adj_mat (Suc k) s g =
     (case step G P adj_mat s g of (s', g') \<Rightarrow> s # trajectory G P adj_mat k s' g')"

text \<open>
  The state of the generator when a step from snapshot \<open>s\<close> reaches node \<open>i\<close>: the nodes
  before \<open>i\<close> have taken their draws.
\<close>

definition generator_at ::
  "'g generator \<Rightarrow> SERModel \<Rightarrow> connectome \<Rightarrow> snapshot \<Rightarrow> nat \<Rightarrow> 'g \<Rightarrow> 'g" where
  "generator_at G P adj_mat s i g = snd (update_nodes G P adj_mat s [0..<i] g)"

text \<open>
  Modelled from the spec: \<^verbatim>\<open>SERModel.simulate\<close>, missing from the sources. It checks the
  configuration before anything else, builds the initial snapshot, runs the loop for
  \<open>n_steps\<close> iterations and returns the recorded snapshots in the engine's cell values.
\<close>

definition SER_simulate ::
  "'g generator \<Rightarrow> SERModel \<Rightarrow> connectome \<Rightarrow> 'g \<Rightarrow> (error + matrix) \<times> 'g" where
  "SER_simulate G P adj_mat g =
     (if \<not> valid_config P adj_mat then (Inl ConfigurationError, g)
      else case initialize G (length adj_mat) (prop_e P) g of
        (s0, g1) \<Rightarrow>
          (case run_steps G P adj_mat (nat (n_steps P)) 0 s0 g1 of
             (rows, g2) \<Rightarrow> (Inr (map (map engine_code) rows), g2)))"

text \<open>
  A ring of three nodes on which the model is run below: node 1 listens to node 0, node 2 to
  node 1 and node 0 to node 2, each with weight 1.
\<close>

definition ring :: connectome where
  "ring = [[0, 0, 1], [1, 0, 0], [0, 1, 0]]"

section \<open>Properties of the driver\<close>

lemma remap_refractory_length: "length (remap_refractory A) = length A"
  by (simp add: remap_refractory_def)

lemma remap_refractory_row:
  "i < length A \<Longrightarrow> remap_refractory A ! i = map (\<lambda>v. if v = - 1 then 2 else v) (A ! i)"
  by (simp add: remap_refractory_def)

lemma simulation_Inr:
  assumes "seed_state G seed = Some g1"
    and "simulate \<lparr> n_steps = steps, n_transient = n_therm, prob_spont_act = ri,
                    prob_recovery = rf, prop_e = prop_active, threshold = T \<rparr> conn_matrix g1
         = (Inr A, g2)"
  shows "simulation G simulate steps n_therm ri rf prop_active T conn_matrix seed g0
         = (Inr (remap_refractory A), g2)"
  using assms by (simp add: simulation_def)

lemma remap_refractory_no_marker: "list_all (list_all (\<lambda>v. v \<noteq> - 1)) (remap_refractory A)"
  by (auto simp add: remap_refractory_def list_all_iff)

lemma remap_engine_code:
  "remap_refractory (map (map engine_code) S) = map (map output_code) S"
proof -
  have "(if engine_code st = - 1 then 2 else engine_code st) = output_code st" for st
    by (cases st) simp_all
  then show ?thesis
    by (simp add: remap_refractory_def comp_def)
qed

lemma output_code_cells:
  "list_all (list_all (\<lambda>v. v = 0 \<or> v = 1 \<or> v = 2)) (map (map output_code) S)"
proof -
  have "output_code st = 0 \<or> output_code st = 1 \<or> output_code st = 2" for st
    by (cases st) simp_all
  then show ?thesis
    by (simp add: list_all_iff)
qed

section \<open>Properties of the engine\<close>

lemma uniform_range: "0 \<le> fst (uniform G g) \<and> fst (uniform G g) < 1"
proof -
  obtain r g' where raw: "next_raw G g = (r, g')"
    by (cases "next_raw G g")
  have "r mod 2 ^ 53 < (2 ^ 53 :: nat)"
    by simp
  then have "(of_nat (r mod 2 ^ 53) :: rat) < of_nat (2 ^ 53)"
    by (simp only: of_nat_less_iff)
  then have "(of_nat (r mod 2 ^ 53) :: rat) / 2 ^ 53 < 1"
    by simp
  with raw show ?thesis
    by (simp add: uniform_def)
qed

lemma update_nodes_length: "length (fst (update_nodes G P adj_mat s ns g)) = length ns"
proof (induction ns arbitrary: g)
  case Nil
  then show ?case by simp
next
  case (Cons n ns)
  obtain st g' where here: "update_node G P adj_mat s n g = (st, g')"
    by (cases "update_node G P adj_mat s n g")
  obtain rest g'' where after: "update_nodes G P adj_mat s ns g' = (rest, g'')"
    by (cases "update_nodes G P adj_mat s ns g'")
  from Cons.IH [of g'] after have "length rest = length ns"
    by simp
  with here after show ?case
    by simp
qed

lemma update_nodes_append:
  "update_nodes G P adj_mat s (xs @ ys) g =
     (case update_nodes G P adj_mat s xs g of
        (a, g') \<Rightarrow>
          (case update_nodes G P adj_mat s ys g' of (b, g'') \<Rightarrow> (a @ b, g'')))"
  by (induction xs arbitrary: g) (auto split: prod.splits)

lemma step_length: "length (fst (step G P adj_mat s g)) = length s"
  by (simp add: step_def update_nodes_length)

text \<open>
  Node \<open>i\<close> of the next snapshot is the per-node rule applied to the old snapshot, with the
  generator in the state in which the nodes before \<open>i\<close> left it.
\<close>

lemma step_nth:
  assumes "i < length s"
  shows "fst (step G P adj_mat s g) ! i =
         fst (update_node G P adj_mat s i (snd (update_nodes G P adj_mat s [0..<i] g)))"
proof -
  obtain a ga where before: "update_nodes G P adj_mat s [0..<i] g = (a, ga)"
    by (cases "update_nodes G P adj_mat s [0..<i] g")
  obtain st gb where here: "update_node G P adj_mat s i ga = (st, gb)"
    by (cases "update_node G P adj_mat s i ga")
  obtain b gc where after: "update_nodes G P adj_mat s [Suc i..<length s] gb = (b, gc)"
    by (cases "update_nodes G P adj_mat s [Suc i..<length s] gb")
  have len: "length a = i"
    using update_nodes_length [of G P adj_mat s "[0..<i]" g] before by simp
  have "[0..<length s] = [0..<i] @ i # [Suc i..<length s]"
    using assms by (metis less_imp_add_positive upt_add_eq_append upt_conv_Cons zero_le add_0)
  then have "step G P adj_mat s g = (a @ st # b, gc)"
    by (simp add: step_def update_nodes_append before here after)
  with len before here show ?thesis
    by (simp add: nth_append)
qed

lemma update_node_excited:
  "s ! i = Excited \<Longrightarrow> update_node G P adj_mat s i g = (Refractory, g)"
  by (simp add: update_node_def)

lemma step_excited:
  "i < length s \<Longrightarrow> s ! i = Excited \<Longrightarrow> fst (step G P adj_mat s g) ! i = Refractory"
  by (simp add: step_nth update_node_excited)

lemma trajectory_length: "length (trajectory G P adj_mat k s g) = k"
  by (induction k arbitrary: s g) (auto split: prod.splits)

lemma trajectory_first: "0 < k \<Longrightarrow> trajectory G P adj_mat k s g ! 0 = s"
  by (cases k) (auto split: prod.splits)

lemma trajectory_snapshot_length:
  "t < k \<Longrightarrow> length (trajectory G P adj_mat k s g ! t) = length s"
proof (induction k arbitrary: t s g)
  case 0
  then show ?case by simp
next
  case (Suc k)
  obtain s' g' where st: "step G P adj_mat s g = (s', g')"
    by (cases "step G P adj_mat s g")
  have len: "length s' = length s"
    using step_length [of G P adj_mat s g] st by simp
  show ?case
  proof (cases t)
    case 0
    then show ?thesis by (simp add: st)
  next
    case (Suc t')
    with Suc.prems have "t' < k" by simp
    then have "length (trajectory G P adj_mat k s' g' ! t') = length s'"
      by (rule Suc.IH)
    with Suc len show ?thesis by (simp add: st)
  qed
qed

text \<open>The rows the loop records are the visited snapshots from step \<open>n_transient\<close> on.\<close>

lemma run_steps_trajectory:
  "fst (run_steps G P adj_mat k t s g) =
   drop (nat (n_transient P) - t) (trajectory G P adj_mat k s g)"
proof (induction k arbitrary: t s g)
  case 0
  then show ?case by simp
next
  case (Suc k)
  obtain s' g' where st: "step G P adj_mat s g = (s', g')"
    by (cases "step G P adj_mat s g")
  obtain rows g'' where rest: "run_steps G P adj_mat k (Suc t) s' g' = (rows, g'')"
    by (cases "run_steps G P adj_mat k (Suc t) s' g'")
  have rows: "rows = drop (nat (n_transient P) - Suc t) (trajectory G P adj_mat k s' g')"
    using Suc.IH [of "Suc t" s' g'] rest by simp
  show ?case
  proof (cases "n_transient P \<le> int t")
    case True
    then have "nat (n_transient P) - t = 0" and "nat (n_transient P) - Suc t = 0"
      by simp_all
    with True rows show ?thesis by (simp add: st rest)
  next
    case False
    then have "nat (n_transient P) - t = Suc (nat (n_transient P) - Suc t)"
      by linarith
    with False rows show ?thesis by (simp add: st rest)
  qed
qed

lemma initialize_length: "length (fst (initialize G n p g)) = n"
  by (simp add: initialize_def split: prod.splits)

text \<open>
  The shape of the engine's matrix: for a valid configuration with a non-negative
  \<open>n_transient\<close> it has \<open>n_steps - n_transient\<close> rows, each with one cell per node.
\<close>

lemma SER_simulate_shape:
  assumes "valid_config P adj_mat" and "0 \<le> n_transient P"
  shows "\<exists>A g'. SER_simulate G P adj_mat g = (Inr A, g') \<and>
                int (length A) = n_steps P - n_transient P \<and>
                list_all (\<lambda>row. length row = length adj_mat) A"
proof -
  obtain s0 g1 where init: "initialize G (length adj_mat) (prop_e P) g = (s0, g1)"
    by (cases "initialize G (length adj_mat) (prop_e P) g")
  obtain rows g2 where run: "run_steps G P adj_mat (nat (n_steps P)) 0 s0 g1 = (rows, g2)"
    by (cases "run_steps G P adj_mat (nat (n_steps P)) 0 s0 g1")
  let ?tr = "trajectory G P adj_mat (nat (n_steps P)) s0 g1"
  have s0: "length s0 = length adj_mat"
    using initialize_length [of G "length adj_mat" "prop_e P" g] init by simp
  have rows: "rows = drop (nat (n_transient P)) ?tr"
    using run_steps_trajectory [of G P adj_mat "nat (n_steps P)" 0 s0 g1] run by simp
  have less: "n_transient P < n_steps P"
    using assms(1) by (simp add: valid_config_def)
  have "length rows = nat (n_steps P) - nat (n_transient P)"
    by (simp add: rows trajectory_length)
  with less assms(2) have count: "int (length rows) = n_steps P - n_transient P"
    by simp
  have "length row = length adj_mat" if "row \<in> set rows" for row
  proof -
    from that rows have "row \<in> set ?tr"
      by (auto dest: in_set_dropD)
    then obtain t where "t < length ?tr" and "?tr ! t = row"
      by (auto simp: in_set_conv_nth)
    then show ?thesis
      using trajectory_snapshot_length [of t "nat (n_steps P)" G P adj_mat s0 g1] s0
      by (simp add: trajectory_length)
  qed
  then have cols: "list_all (\<lambda>row. length row = length adj_mat) (map (map engine_code) rows)"
    by (simp add: list_all_iff)
  have "SER_simulate G P adj_mat g = (Inr (map (map engine_code) rows), g2)"
    using assms(1) by (simp add: SER_simulate_def init run)
  with count cols show ?thesis
    by simp
qed

subsection \<open>Running the model on the ring\<close>

lemma uniform_lcg:
  "uniform lcg x =
     (of_nat ((6364136223846793005 * x + 1442695040888963407) mod 2 ^ 64 div 2 ^ 11 mod 2 ^ 53)
        / 2 ^ 53,
      (6364136223846793005 * x + 1442695040888963407) mod 2 ^ 64)"
  by (simp add: uniform_def lcg_def Let_def)

lemma below_lcg:
  "below lcg n x =
     ((6364136223846793005 * x + 1442695040888963407) mod 2 ^ 64 div 2 ^ 11 mod n,
      (6364136223846793005 * x + 1442695040888963407) mod 2 ^ 64)"
  by (simp add: below_def lcg_def Let_def)

lemma seed_lcg_124: "seed_state lcg 124 = Some 124"
  by (simp add: lcg_def)

lemma choose_nodes_pos:
  "0 < k \<Longrightarrow> choose_nodes G k pool g =
     (if pool = [] then ([], g)
      else case below G (length pool) g of
        (i, g') \<Rightarrow>
          (case choose_nodes G (k - 1) (take i pool @ drop (Suc i) pool) g' of
             (rest, g'') \<Rightarrow> (pool ! i # rest, g'')))"
  by (cases k) simp_all

lemma run_steps_pos:
  "0 < k \<Longrightarrow> run_steps G P adj_mat k t s g =
     (case step G P adj_mat s g of
        (s', g') \<Rightarrow>
          (case run_steps G P adj_mat (k - 1) (Suc t) s' g' of
             (rows, g'') \<Rightarrow> (if n_transient P \<le> int t then s # rows else rows, g'')))"
  by (cases k) simp_all

lemma upt_0_3: "[0..<3] = [0, 1, 2]"
  by (simp add: upt_rec)

lemma initialize_ring:
  "initialize lcg 3 (1 / 3) 124 = ([Quiescent, Quiescent, Excited], 15832335702090128155)"
  by (simp add: initialize_def round_half_even_def below_lcg choose_nodes_pos upt_0_3)

lemma step_ring_0:
  "step lcg \<lparr> n_steps = 3, n_transient = 1, prob_spont_act = 0, prob_recovery = 1,
               prop_e = 1 / 3, threshold = 1 / 2 \<rparr> ring
     [Quiescent, Quiescent, Excited] 15832335702090128155
   = ([Excited, Quiescent, Refractory], 17373072891057428421)"
  by (simp add: step_def upt_0_3 update_node_def uniform_lcg input_sum_def ring_def)

lemma step_ring_1:
  "step lcg \<lparr> n_steps = 3, n_transient = 1, prob_spont_act = 0, prob_recovery = 1,
               prop_e = 1 / 3, threshold = 1 / 2 \<rparr> ring
     [Excited, Quiescent, Refractory] 17373072891057428421
   = ([Refractory, Excited, Quiescent], 8292695488493744255)"
  by (simp add: step_def upt_0_3 update_node_def uniform_lcg input_sum_def ring_def)

lemma step_ring_2:
  "step lcg \<lparr> n_steps = 3, n_transient = 1, prob_spont_act = 0, prob_recovery = 1,
               prop_e = 1 / 3, threshold = 1 / 2 \<rparr> ring
     [Refractory, Excited, Quiescent] 8292695488493744255
   = ([Quiescent, Refractory, Excited], 17661128368945800137)"
  by (simp add: step_def upt_0_3 update_node_def uniform_lcg input_sum_def ring_def)

lemma valid_config_ring:
  "valid_config \<lparr> n_steps = 3, n_transient = 1, prob_spont_act = 0, prob_recovery = 1,
                   prop_e = 1 / 3, threshold = 1 / 2 \<rparr> ring"
  by (simp add: valid_config_def square_def probability_def ring_def)

lemma SER_simulate_ring:
  "SER_simulate lcg \<lparr> n_steps = 3, n_transient = 1, prob_spont_act = 0, prob_recovery = 1,
                       prop_e = 1 / 3, threshold = 1 / 2 \<rparr> ring 124
   = (Inr [[1, 0, - 1], [- 1, 1, 0]], 17661128368945800137)"
proof -
  have len: "length ring = 3"
    by (simp add: ring_def)
  show ?thesis
    by (simp add: SER_simulate_def valid_config_ring len initialize_ring run_steps_pos
        step_ring_0 step_ring_1 step_ring_2)
qed

subsection \<open>The claims about the driver\<close>

text \<open>
  C10. The matrix returned by \<^verbatim>\<open>simulation\<close> is the matrix produced by
  \<^verbatim>\<open>SERModel.simulate\<close> with every entry equal to \<open>-1\<close> replaced by \<open>2\<close> and every other
  entry unchanged: it has the same rows of the same lengths, and cell by cell it holds \<open>2\<close>
  where the engine's matrix holds \<open>-1\<close> and the engine's value elsewhere (so \<open>0\<close> and \<open>1\<close>
  pass through). The generator is left as the engine left it.
\<close>

theorem simulation_remaps_cells:
  assumes "seed_state G seed = Some g1"
    and "simulate \<lparr> n_steps = steps, n_transient = n_therm, prob_spont_act = ri,
                    prob_recovery = rf, prop_e = prop_active, threshold = T \<rparr> conn_matrix g1
         = (Inr A, g2)"
  shows "\<exists>M. simulation G simulate steps n_therm ri rf prop_active T conn_matrix seed g0
               = (Inr M, g2) \<and>
             length M = length A \<and>
             (\<forall>i<length A. length (M ! i) = length (A ! i) \<and>
                (\<forall>j<length (A ! i). M ! i ! j = (if A ! i ! j = - 1 then 2 else A ! i ! j)))"
proof -
  let ?M = "remap_refractory A"
  have run: "simulation G simulate steps n_therm ri rf prop_active T conn_matrix seed g0
             = (Inr ?M, g2)"
    using assms by (rule simulation_Inr)
  have rows: "length ?M = length A"
    by (rule remap_refractory_length)
  have cells: "length (?M ! i) = length (A ! i) \<and>
               (\<forall>j<length (A ! i). ?M ! i ! j = (if A ! i ! j = - 1 then 2 else A ! i ! j))"
    if "i < length A" for i
    using that by (simp add: remap_refractory_row)
  from run rows cells show ?thesis
    by blast
qed

theorem simulation_remaps_cells_witness:
  "seed_state lcg 124 = Some 124 \<and>
   SER_simulate lcg \<lparr> n_steps = 3, n_transient = 1, prob_spont_act = 0, prob_recovery = 1,
                       prop_e = 1 / 3, threshold = 1 / 2 \<rparr> ring 124
     = (Inr [[1, 0, - 1], [- 1, 1, 0]], 17661128368945800137) \<and>
   simulation lcg (SER_simulate lcg) 3 1 0 1 (1 / 3) (1 / 2) ring 124 0
     = (Inr [[1, 0, 2], [2, 1, 0]], 17661128368945800137)"
  using simulation_remaps_cells
    [where G = lcg and simulate = "SER_simulate lcg" and ?g0.0 = 0, OF seed_lcg_124 SER_simulate_ring]
  by (simp add: seed_lcg_124 SER_simulate_ring simulation_def remap_refractory_def)

text \<open>
  C1. The run is deterministic given the seed: line 49 overwrites the process-wide generator
  with the state made from the seed, so for fixed parameters, connectome and seed the result
  of \<^verbatim>\<open>simulation\<close> (the matrix, or the failure) is the same whatever state the generator was
  in before the call. Two independent invocations differ in nothing else.
\<close>

theorem simulation_deterministic:
  "fst (simulation G simulate steps n_therm ri rf prop_active T conn_matrix seed g0) =
   fst (simulation G simulate steps n_therm ri rf prop_active T conn_matrix seed g0')"
  by (simp add: simulation_def split: option.split prod.split sum.split)

text \<open>
  C2. Every cell of the matrix returned by \<^verbatim>\<open>simulation\<close> holds \<open>0\<close> (quiescent), \<open>1\<close>
  (excited) or \<open>2\<close> (refractory), and the engine's refractory marker \<open>-1\<close> never appears in
  it. Whatever matrix the engine returns, no cell of the result is \<open>-1\<close>; and when the engine's
  matrix holds its values for the three node states (\<open>0\<close>, \<open>1\<close>, \<open>-1\<close>), the result holds the
  output values of the same states, each of which is \<open>0\<close>, \<open>1\<close> or \<open>2\<close>.
\<close>

theorem simulation_cell_values:
  assumes "seed_state G seed = Some g1"
    and "simulate \<lparr> n_steps = steps, n_transient = n_therm, prob_spont_act = ri,
                    prob_recovery = rf, prop_e = prop_active, threshold = T \<rparr> conn_matrix g1
         = (Inr A, g2)"
  shows "\<exists>M. fst (simulation G simulate steps n_therm ri rf prop_active T conn_matrix seed g0)
               = Inr M \<and>
             list_all (list_all (\<lambda>v. v \<noteq> - 1)) M \<and>
             (\<forall>S. A = map (map engine_code) S \<longrightarrow>
                  M = map (map output_code) S \<and>
                  list_all (list_all (\<lambda>v. v = 0 \<or> v = 1 \<or> v = 2)) M)"
proof -
  let ?M = "remap_refractory A"
  have run: "fst (simulation G simulate steps n_therm ri rf prop_active T conn_matrix seed g0)
             = Inr ?M"
    using assms by (simp add: simulation_def)
  have coded: "?M = map (map output_code) S \<and>
               list_all (list_all (\<lambda>v. v = 0 \<or> v = 1 \<or> v = 2)) ?M"
    if "A = map (map engine_code) S" for S
    using that by (simp add: remap_engine_code output_code_cells)
  from run remap_refractory_no_marker [of A] coded show ?thesis
    by blast
qed

theorem simulation_cell_values_witness:
  "seed_state lcg 124 = Some 124 \<and>
   SER_simulate lcg \<lparr> n_steps = 3, n_transient = 1, prob_spont_act = 0, prob_recovery = 1,
                       prop_e = 1 / 3, threshold = 1 / 2 \<rparr> ring 124
     = (Inr (map (map engine_code)
              [[Excited, Quiescent, Refractory], [Refractory, Excited, Quiescent]]),
        17661128368945800137) \<and>
   fst (simulation lcg (SER_simulate lcg) 3 1 0 1 (1 / 3) (1 / 2) ring 124 0)
     = Inr [[1, 0, 2], [2, 1, 0]] \<and>
   list_all (list_all (\<lambda>v. v = 0 \<or> v = 1 \<or> v = (2::int))) [[1, 0, 2], [2, 1, 0]]"
  using simulation_cell_values
    [where G = lcg and simulate = "SER_simulate lcg" and ?g0.0 = 0, OF seed_lcg_124 SER_simulate_ring]
  by (simp add: seed_lcg_124 SER_simulate_ring simulation_def remap_refractory_def)

subsection \<open>The claims about the engine\<close>

lemma trajectory_pos:
  "0 < k \<Longrightarrow> trajectory G P adj_mat k s g =
     (case step G P adj_mat s g of (s', g') \<Rightarrow> s # trajectory G P adj_mat (k - 1) s' g')"
  by (cases k) simp_all

lemma trajectory_ring:
  "trajectory lcg \<lparr> n_steps = 3, n_transient = 1, prob_spont_act = 0, prob_recovery = 1,
                     prop_e = 1 / 3, threshold = 1 / 2 \<rparr> ring 3
     [Quiescent, Quiescent, Excited] 15832335702090128155
   = [[Quiescent, Quiescent, Excited], [Excited, Quiescent, Refractory],
      [Refractory, Excited, Quiescent]]"
  by (simp add: trajectory_pos step_ring_0 step_ring_1 step_ring_2)

text \<open>
  C4. Excitation lasts exactly one step: in the sequence of snapshots that the step loop
  visits from any snapshot \<open>s\<close> (the discarded steps included), a node that is excited at
  step \<open>t\<close> is refractory at step \<open>t + 1\<close>, whatever the parameters, the connectome and the
  draws are.
\<close>

theorem excited_decays:
  assumes "Suc t < k"
    and "i < length s"
    and "trajectory G P adj_mat k s g ! t ! i = Excited"
  shows "trajectory G P adj_mat k s g ! Suc t ! i = Refractory"
  using assms
proof (induction k arbitrary: t s g)
  case 0
  then show ?case by simp
next
  case (Suc k)
  obtain s' g' where st: "step G P adj_mat s g = (s', g')"
    by (cases "step G P adj_mat s g")
  have len: "length s' = length s"
    using step_length [of G P adj_mat s g] st by simp
  show ?case
  proof (cases t)
    case 0
    with Suc.prems have "s ! i = Excited" and "0 < k"
      by (simp_all add: st)
    then have "trajectory G P adj_mat k s' g' ! 0 ! i = Refractory"
      using step_excited [of i s G P adj_mat g] Suc.prems(2) st
      by (simp add: trajectory_first)
    with 0 show ?thesis
      by (simp add: st)
  next
    case (Suc t')
    with Suc.prems have later: "Suc t' < k"
      and excited: "trajectory G P adj_mat k s' g' ! t' ! i = Excited"
      by (simp_all add: st)
    have node: "i < length s'"
      using Suc.prems(2) len by simp
    from later node excited have "trajectory G P adj_mat k s' g' ! Suc t' ! i = Refractory"
      by (rule Suc.IH)
    with Suc show ?thesis
      by (simp add: st)
  qed
qed

theorem excited_decays_witness:
  "Suc 0 < (3::nat) \<and> 2 < length [Quiescent, Quiescent, Excited] \<and>
   trajectory lcg \<lparr> n_steps = 3, n_transient = 1, prob_spont_act = 0, prob_recovery = 1,
                     prop_e = 1 / 3, threshold = 1 / 2 \<rparr> ring 3
     [Quiescent, Quiescent, Excited] 15832335702090128155 ! 0 ! 2 = Excited \<and>
   trajectory lcg \<lparr> n_steps = 3, n_transient = 1, prob_spont_act = 0, prob_recovery = 1,
                     prop_e = 1 / 3, threshold = 1 / 2 \<rparr> ring 3
     [Quiescent, Quiescent, Excited] 15832335702090128155 ! Suc 0 ! 2 = Refractory"
proof -
  have a: "Suc 0 < (3::nat)"
    by simp
  have b: "2 < length [Quiescent, Quiescent, Excited]"
    by simp
  have c: "trajectory lcg \<lparr> n_steps = 3, n_transient = 1, prob_spont_act = 0,
                             prob_recovery = 1, prop_e = 1 / 3, threshold = 1 / 2 \<rparr> ring 3
             [Quiescent, Quiescent, Excited] 15832335702090128155 ! 0 ! 2 = Excited"
    by (simp add: trajectory_ring)
  from excited_decays [OF a b c] a b c show ?thesis
    by blast
qed

text \<open>
  C3. A node that is quiescent at step \<open>t\<close> takes one draw \<open>u\<close> from \<open>[0, 1)\<close> when the step
  reaches it, and at step \<open>t + 1\<close> it is excited if and only if the draw succeeds (\<open>u < ri\<close>)
  or the sum of the weights of its incoming edges from the nodes excited at \<open>t\<close> exceeds the
  threshold \<open>T\<close>; otherwise it is still quiescent. The draw is taken, and the generator
  advanced by it, whether or not the network condition holds; the two conditions are
  combined by a logical or.
\<close>

theorem quiescent_activation:
  assumes "i < length s"
    and "s ! i = Quiescent"
  shows "\<exists>u g'. uniform G (generator_at G P adj_mat s i g) = (u, g') \<and> 0 \<le> u \<and> u < 1 \<and>
           update_node G P adj_mat s i (generator_at G P adj_mat s i g) =
             (if u < prob_spont_act P \<or> threshold P < input_sum adj_mat s i
              then Excited else Quiescent, g') \<and>
           fst (step G P adj_mat s g) ! i =
             (if u < prob_spont_act P \<or> threshold P < input_sum adj_mat s i
              then Excited else Quiescent)"
proof -
  let ?g = "generator_at G P adj_mat s i g"
  obtain u g' where draw: "uniform G ?g = (u, g')"
    by (cases "uniform G ?g")
  have range: "0 \<le> u \<and> u < 1"
    using uniform_range [of G ?g] draw by simp
  have node: "update_node G P adj_mat s i ?g =
              (if u < prob_spont_act P \<or> threshold P < input_sum adj_mat s i
               then Excited else Quiescent, g')"
    using assms(2) by (simp add: update_node_def draw)
  have "fst (step G P adj_mat s g) ! i = fst (update_node G P adj_mat s i ?g)"
    using assms(1) by (simp add: step_nth generator_at_def)
  with draw range node show ?thesis
    by simp
qed

theorem quiescent_activation_witness:
  "0 < length [Quiescent, Quiescent, Excited] \<and> [Quiescent, Quiescent, Excited] ! 0 = Quiescent \<and>
   input_sum ring [Quiescent, Quiescent, Excited] 0 = 1 \<and>
   fst (step lcg \<lparr> n_steps = 3, n_transient = 1, prob_spont_act = 0, prob_recovery = 1,
                    prop_e = 1 / 3, threshold = 1 / 2 \<rparr> ring
          [Quiescent, Quiescent, Excited] 15832335702090128155) ! 0 = Excited"
proof -
  have a: "0 < length [Quiescent, Quiescent, Excited]"
    by simp
  have b: "[Quiescent, Quiescent, Excited] ! 0 = Quiescent"
    by simp
  have c: "input_sum ring [Quiescent, Quiescent, Excited] 0 = 1"
    by (simp add: input_sum_def ring_def)
  from quiescent_activation [OF a b, of lcg
      "\<lparr> n_steps = 3, n_transient = 1, prob_spont_act = 0, prob_recovery = 1,
         prop_e = 1 / 3, threshold = 1 / 2 \<rparr>" ring 15832335702090128155]
  have "fst (step lcg \<lparr> n_steps = 3, n_transient = 1, prob_spont_act = 0, prob_recovery = 1,
                        prop_e = 1 / 3, threshold = 1 / 2 \<rparr> ring
              [Quiescent, Quiescent, Excited] 15832335702090128155) ! 0 = Excited"
    by (auto simp add: c)
  with a b c show ?thesis
    by blast
qed








end
